theory Spec2Isabelle
  imports Main
begin

section \<open>Values shared by the wrappers\<close>

text \<open>
  The wrappers never compute on the values bound to their inputs: they store and forward
  them. A JavaScript value is therefore a piece of immutable data; \<open>JUndefined\<close> is the
  value of an input that was never bound. Objects that the wrappers mutate or compare by
  identity (directives, SDK objects, the map state) are addressed by a reference.
\<close>

datatype jsval =
    JUndefined
  | JNull
  | JBool bool
  | JNum int
  | JStr string
  | JArr "jsval list"
  | JObj "(string \<times> jsval) list"

type_synonym ref = nat

datatype error = TypeError

section \<open>YaClustererDirective\<close>

subsection \<open>Data\<close>

text \<open>
  Angular's \<open>SimpleChange\<close>; \<open>SimpleChanges\<close> maps the name of each input that changed
  to its change, so \<open>const { options } = changes\<close> is the lookup \<open>changes ''options''\<close>
  and \<open>if (options)\<close> asks whether the key is present.
\<close>

record SimpleChange =
  previousValue :: jsval
  currentValue :: jsval
  firstChange :: bool

type_synonym SimpleChanges = "string \<rightharpoonup> SimpleChange"

text \<open>
  An event object of the SDK. The handlers read \<open>e.originalEvent.type\<close> and pass the
  event on whole.
\<close>

record sdk_event =
  originalEvent_type :: string
  event_data :: jsval

text \<open>The five \<open>@Output()\<close> emitters of the directive.\<close>

datatype emitter = Out_ready | Out_hint | Out_mapChange | Out_optionsChange | Out_parentChange

text \<open>
  What an emitter is given: \<open>{ ymaps, instance }\<close> for \<open>ready\<close> and
  \<open>{ ymaps, instance, type, event }\<close> for the others. \<open>ymaps\<close> is the global
  namespace of the SDK, the same in every emission, and is left out.
\<close>

datatype payload =
    YaReadyEvent (ev_instance: ref)
  | YaEvent (ev_instance: ref) (ev_type: string) (ev_event: sdk_event)

text \<open>
  A callback registered by \<open>clusterer.events.add(handler.name, (e) => ...)\<close>: the names
  it was registered under, and what the closure captured (the emitter of its handler and
  the constant \<open>clusterer\<close>).
\<close>

record listener =
  lst_names :: "string list"
  lst_output :: emitter
  lst_instance :: ref

text \<open>
  A content child (\<open>YaPlacemarkDirective\<close> or \<open>YaGeoobjectDirective\<close>). The directive
  reads its \<open>id\<close> only, and tests it with \<open>!child.id\<close>, which holds of \<open>undefined\<close>
  and of the empty string.
\<close>

record child =
  child_id :: "string option"

definition falsy_id :: "string option \<Rightarrow> bool" where
  "falsy_id i \<longleftrightarrow> i = None \<or> i = Some []"

text \<open>
  \<open>createPlacemark(map, clusterer)\<close> and \<open>createGeoObject(map, clusterer)\<close> are
  methods of the children, whose classes are not among the sources. They are parameters
  of the model: given the map, the clusterer and the child, each returns the child as it
  leaves it and the SDK object it created.
\<close>

record 'o children_api =
  createPlacemark :: "ref \<Rightarrow> ref \<Rightarrow> child \<Rightarrow> child \<times> 'o"
  createGeoObject :: "ref \<Rightarrow> ref \<Rightarrow> child \<Rightarrow> child \<times> 'o"

text \<open>
  The calls made on the SDK. \<open>ClustererAdd c p obj\<close> is \<open>clusterer.add(obj)\<close> on the
  clusterer \<open>c\<close>, where \<open>obj\<close> is what the create method of the child \<open>p\<close> returned.
\<close>

datatype 'o sdk_call =
    NewClusterer ref jsval
  | OptionsSet ref jsval
  | ClustererAdd ref ref 'o

text \<open>
  The two subscriptions of \<open>createClusterer\<close>, as closures: which list they listen to,
  and the \<open>map\<close> and \<open>clusterer\<close> they captured.
\<close>

datatype child_kind = Placemark | GeoObject

record subscription =
  sub_kind :: child_kind
  sub_map :: ref
  sub_clusterer :: ref

text \<open>
  The directive and the part of the world it acts on. \<open>p_sub\<close>, \<open>p_sub_closed\<close> and
  \<open>p_clusterer\<close> are the private fields \<open>_sub\<close> (its live children and its
  \<open>closed\<close> flag) and \<open>_clusterer\<close> (\<open>None\<close> while undefined). \<open>emitted\<close> is the
  sequence of values given to the emitters. \<open>children\<close> holds the content children by
  reference, \<open>listeners\<close> the event manager of every SDK clusterer, \<open>sdk_calls\<close> the
  calls made so far, and \<open>next_ref\<close> the object \<open>new ymaps.Clusterer\<close> returns next.
\<close>

record 'o directive =
  placemarks :: "ref list"
  geoObjects :: "ref list"
  options :: jsval
  emitted :: "(emitter \<times> payload) list"
  p_sub :: "subscription list"
  p_sub_closed :: bool
  p_clusterer :: "ref option"
  children :: "ref \<Rightarrow> child"
  listeners :: "ref \<Rightarrow> listener list"
  sdk_calls :: "'o sdk_call list"
  next_ref :: ref

subsection \<open>Operations\<close>

definition updateClusterer :: "SimpleChanges \<Rightarrow> 'o directive \<Rightarrow> 'o directive" where
  "updateClusterer changes s =
     (case p_clusterer s of
        None \<Rightarrow> s
      | Some clusterer \<Rightarrow>
          (case changes ''options'' of
             None \<Rightarrow> s
           | Some opts \<Rightarrow>
               s\<lparr>sdk_calls := sdk_calls s @ [OptionsSet clusterer (currentValue opts)]\<rparr>))"

definition ngOnChanges :: "SimpleChanges \<Rightarrow> 'o directive \<Rightarrow> 'o directive" where
  "ngOnChanges changes s = updateClusterer changes s"

text \<open>
  The body of both subscriptions: \<open>list.forEach\<close>, adding what \<open>create\<close> returns for
  every child whose \<open>id\<close> is falsy. The children are objects, so what \<open>create\<close> does
  to a child is seen by the rest of the loop.
\<close>

fun addNew :: "(child \<Rightarrow> child \<times> 'o) \<Rightarrow> ref \<Rightarrow> ref list \<Rightarrow> 'o directive \<Rightarrow> 'o directive" where
  "addNew create clusterer [] s = s"
| "addNew create clusterer (p # ps) s =
     addNew create clusterer ps
       (if falsy_id (child_id (children s p))
        then (case create (children s p) of
                (ch, obj) \<Rightarrow>
                  s\<lparr>children := (children s)(p := ch),
                    sdk_calls := sdk_calls s @ [ClustererAdd clusterer p obj]\<rparr>)
        else s)"

definition sub_next :: "'o children_api \<Rightarrow> subscription \<Rightarrow> ref list \<Rightarrow> 'o directive \<Rightarrow> 'o directive" where
  "sub_next api sub list s =
     (case sub_kind sub of
        Placemark \<Rightarrow>
          addNew (createPlacemark api (sub_map sub) (sub_clusterer sub)) (sub_clusterer sub) list s
      | GeoObject \<Rightarrow>
          addNew (createGeoObject api (sub_map sub) (sub_clusterer sub)) (sub_clusterer sub) list s)"

text \<open>
  \<open>this._sub.add(x)\<close>: a \<open>Subscription\<close> that is already closed unsubscribes what it
  is given at once.
\<close>

definition sub_add :: "subscription \<Rightarrow> 'o directive \<Rightarrow> 'o directive" where
  "sub_add x s = (if p_sub_closed s then s else s\<lparr>p_sub := p_sub s @ [x]\<rparr>)"

text \<open>The \<open>handlers\<close> array, with the \<open>clusterer\<close> its functions close over.\<close>

definition handlers :: "ref \<Rightarrow> listener list" where
  "handlers clusterer =
     [\<lparr>lst_names = [''hintclose'', ''hintopen''], lst_output = Out_hint, lst_instance = clusterer\<rparr>,
      \<lparr>lst_names = [''mapchange''], lst_output = Out_mapChange, lst_instance = clusterer\<rparr>,
      \<lparr>lst_names = [''optionschange''], lst_output = Out_optionsChange, lst_instance = clusterer\<rparr>,
      \<lparr>lst_names = [''parentchange''], lst_output = Out_parentChange, lst_instance = clusterer\<rparr>]"

text \<open>
  \<open>_addEventListeners\<close> reads \<open>this._clusterer\<close>; were it undefined,
  \<open>clusterer.events\<close> would throw. \<open>_ngZone.run(f)\<close> calls \<open>f\<close> in place.
\<close>

definition addEventListeners :: "'o directive \<Rightarrow> error + 'o directive" where
  "addEventListeners s =
     (case p_clusterer s of
        None \<Rightarrow> Inl TypeError
      | Some clusterer \<Rightarrow>
          Inr (s\<lparr>emitted := emitted s @ [(Out_ready, YaReadyEvent clusterer)],
                 listeners := (listeners s)(clusterer := listeners s clusterer @ handlers clusterer)\<rparr>))"

text \<open>
  \<open>createClusterer(map)\<close>. \<open>new ymaps.Clusterer(this.options)\<close> returns an object
  that did not exist before, on which nothing is registered yet.
  \<open>startWith(this.placemarks)\<close> makes each subscription run its body on the current
  list as soon as it subscribes, before \<open>_sub.add\<close>.
\<close>

definition createClusterer :: "'o children_api \<Rightarrow> ref \<Rightarrow> 'o directive \<Rightarrow> error + ('o directive \<times> ref)" where
  "createClusterer api map' s =
     (let clusterer = next_ref s;
          s1 = s\<lparr>next_ref := Suc clusterer,
                 listeners := (listeners s)(clusterer := []),
                 sdk_calls := sdk_calls s @ [NewClusterer clusterer (options s)],
                 p_clusterer := Some clusterer\<rparr>;
          placemarksSub = \<lparr>sub_kind = Placemark, sub_map = map', sub_clusterer = clusterer\<rparr>;
          s2 = sub_add placemarksSub (sub_next api placemarksSub (placemarks s1) s1);
          geoObjectsSub = \<lparr>sub_kind = GeoObject, sub_map = map', sub_clusterer = clusterer\<rparr>;
          s3 = sub_add geoObjectsSub (sub_next api geoObjectsSub (geoObjects s2) s2)
      in case addEventListeners s3 of
           Inl e \<Rightarrow> Inl e
         | Inr s4 \<Rightarrow> Inr (s4, clusterer))"

definition ngOnDestroy :: "'o directive \<Rightarrow> 'o directive" where
  "ngOnDestroy s = s\<lparr>p_sub := [], p_sub_closed := True\<rparr>"

subsection \<open>The environment\<close>

text \<open>
  A content-children list emits: Angular has updated the \<open>QueryList\<close> in place and hands
  it to every live subscription of that list, in the order they subscribed.
\<close>

definition changes_emit :: "'o children_api \<Rightarrow> child_kind \<Rightarrow> ref list \<Rightarrow> 'o directive \<Rightarrow> 'o directive" where
  "changes_emit api k list s =
     foldl (\<lambda>t sub. sub_next api sub list t)
       (case k of Placemark \<Rightarrow> s\<lparr>placemarks := list\<rparr> | GeoObject \<Rightarrow> s\<lparr>geoObjects := list\<rparr>)
       (filter (\<lambda>sub. sub_kind sub = k) (p_sub s))"

text \<open>
  The event manager of the SDK fires an event of type \<open>n\<close> on the clusterer \<open>c\<close>: every
  callback registered under \<open>n\<close> is called with the event, in the order of registration.
  A callback of this directive gives \<open>{ ymaps, instance, type: e.originalEvent.type, event: e }\<close>
  to its emitter.
\<close>

definition fire :: "ref \<Rightarrow> string \<Rightarrow> sdk_event \<Rightarrow> 'o directive \<Rightarrow> 'o directive" where
  "fire c n e s =
     s\<lparr>emitted := emitted s @
          map (\<lambda>l. (lst_output l, YaEvent (lst_instance l) (originalEvent_type e) e))
            (filter (\<lambda>l. n \<in> set (lst_names l)) (listeners s c))\<rparr>"

text \<open>An event is delivered under its own type.\<close>

definition deliver :: "ref \<Rightarrow> sdk_event \<Rightarrow> 'o directive \<Rightarrow> 'o directive" where
  "deliver c e s = fire c (originalEvent_type e) e s"

text \<open>Everything that can happen to the directive, and a run of such steps.\<close>

datatype event =
    CreateClusterer ref
  | BindOptions jsval
  | NgOnChanges SimpleChanges
  | ChangesEmit child_kind "ref list"
  | SdkEvent ref sdk_event
  | NgOnDestroy

fun step :: "'o children_api \<Rightarrow> event \<Rightarrow> 'o directive \<Rightarrow> error + 'o directive" where
  "step api (CreateClusterer m) s =
     (case createClusterer api m s of Inl e \<Rightarrow> Inl e | Inr (s', c) \<Rightarrow> Inr s')"
| "step api (BindOptions v) s = Inr (s\<lparr>options := v\<rparr>)"
| "step api (NgOnChanges changes) s = Inr (ngOnChanges changes s)"
| "step api (ChangesEmit k list) s = Inr (changes_emit api k list s)"
| "step api (SdkEvent c e) s = Inr (deliver c e s)"
| "step api NgOnDestroy s = Inr (ngOnDestroy s)"

fun run :: "'o children_api \<Rightarrow> event list \<Rightarrow> 'o directive \<Rightarrow> error + 'o directive" where
  "run api [] s = Inr s"
| "run api (ev # evs) s =
     (case step api ev s of Inl e \<Rightarrow> Inl e | Inr s' \<Rightarrow> run api evs s')"

text \<open>
  Counting, among the calls made so far, the times the child \<open>p\<close> was added to a
  clusterer.
\<close>

fun is_add_of :: "ref \<Rightarrow> 'o sdk_call \<Rightarrow> bool" where
  "is_add_of p (ClustererAdd c q obj) = (q = p)"
| "is_add_of p (NewClusterer c v) = False"
| "is_add_of p (OptionsSet c v) = False"

definition adds_of :: "ref \<Rightarrow> 'o directive \<Rightarrow> nat" where
  "adds_of p s = length (filter (is_add_of p) (sdk_calls s))"

text \<open>
  What is asked of the create methods of the children: each leaves the child with an
  \<open>id\<close> that \<open>!child.id\<close> no longer accepts.
\<close>

definition sets_id :: "'o children_api \<Rightarrow> bool" where
  "sets_id api \<longleftrightarrow>
     (\<forall>m c ch. \<not> falsy_id (child_id (fst (createPlacemark api m c ch)))) \<and>
     (\<forall>m c ch. \<not> falsy_id (child_id (fst (createGeoObject api m c ch))))"

section \<open>YandexMapComponent\<close>

subsection \<open>Data\<close>

text \<open>
  The component writes into objects it shares with its host: \<open>this.mapState\<close> and the
  \<open>multirouteModel\<close> of every multiroute. These live in a store of objects, each a
  finite map from field names to values; \<open>next_obj\<close> is where \<open>{}\<close> allocates next.
\<close>

type_synonym obj = "string \<rightharpoonup> jsval"

record YandexPlacemarkComponent =
  geometry :: jsval
  placemarkProperties :: jsval
  placemarkOptions :: jsval

record YandexMultirouteComponent =
  referencePoints :: jsval
  multirouteModel :: "ref option"
  multirouteOptions :: jsval

record YandexGeoobjectComponent =
  geoObjectFeature :: jsval
  geoObjectOptions :: jsval

text \<open>
  The calls made on \<open>YandexMapService\<close>. \<open>CreateMap\<close> records the id, the state
  object it was handed and the fields that object had at the call, and the options.
\<close>

datatype service_call =
    InitMap
  | CreateMap "string option" ref obj jsval
  | CreatePlacemark jsval jsval jsval
  | CreateMultiroute "ref option" jsval
  | CreateGeoObject jsval jsval

text \<open>
  The component and the part of the world it acts on. \<open>mc_placemarks\<close> and
  \<open>mc_geoObjects\<close> are the content children \<open>placemarks\<close> and \<open>geoObjects\<close>,
  \<open>p_uniqueMapId\<close> is the private \<open>_uniqueMapId\<close>, \<open>container_id\<close> the \<open>id\<close>
  attribute of \<open>mapContainer.nativeElement\<close>, and \<open>initMap_subs\<close> the number of live
  subscriptions to what \<open>initMap()\<close> returned.
\<close>

record component =
  center :: jsval
  zoom :: jsval
  mapState :: ref
  mapOptions :: jsval
  p_uniqueMapId :: "string option"
  mc_placemarks :: "YandexPlacemarkComponent list"
  multiroutes :: "YandexMultirouteComponent list"
  mc_geoObjects :: "YandexGeoobjectComponent list"
  heap :: "ref \<Rightarrow> obj"
  next_obj :: ref
  container_id :: "string option"
  service_calls :: "service_call list"
  initMap_subs :: nat

subsection \<open>Operations\<close>

text \<open>The assignment \<open>o.f = v\<close> on the object \<open>r\<close>.\<close>

definition set_field :: "ref \<Rightarrow> string \<Rightarrow> jsval \<Rightarrow> component \<Rightarrow> component" where
  "set_field r f v s = s\<lparr>heap := (heap s)(r := (heap s r)(f \<mapsto> v))\<rparr>"

text \<open>
  The loop of \<open>_combineInputs\<close> over the multiroutes. It returns the multiroutes as it
  leaves them, each with a model.
\<close>

fun forEach_multiroute ::
  "YandexMultirouteComponent list \<Rightarrow> component \<Rightarrow> YandexMultirouteComponent list \<times> component" where
  "forEach_multiroute [] s = ([], s)"
| "forEach_multiroute (multiroute # rest) s =
     (case (case multirouteModel multiroute of
              None \<Rightarrow>
                (next_obj s,
                 s\<lparr>heap := (heap s)(next_obj s := Map.empty), next_obj := Suc (next_obj s)\<rparr>)
            | Some r \<Rightarrow> (r, s)) of
        (model, s1) \<Rightarrow>
          (case forEach_multiroute rest
                  (set_field model ''referencePoints'' (referencePoints multiroute) s1) of
             (rest', s2) \<Rightarrow> (multiroute\<lparr>multirouteModel := Some model\<rparr> # rest', s2)))"

definition combineInputs :: "component \<Rightarrow> component" where
  "combineInputs s =
     (let s1 = set_field (mapState s) ''zoom'' (zoom s) s;
          s2 = set_field (mapState s1) ''center'' (center s1) s1
      in case forEach_multiroute (multiroutes s2) s2 of
           (ms, s3) \<Rightarrow> s3\<lparr>multiroutes := ms\<rparr>)"

text \<open>\<open>Number.prototype.toString(16)\<close> on a natural number.\<close>

fun toString16 :: "nat \<Rightarrow> string" where
  "toString16 n =
     (if n < 16 then [''0123456789abcdef'' ! n]
      else toString16 (n div 16) @ [''0123456789abcdef'' ! (n mod 16)])"

text \<open>
  \<open>_setUniqueMapIdOfMap\<close>; \<open>n\<close> is the integer \<open>~~(Math.random() * 1e8)\<close> the call
  drew, a number below \<open>10^8\<close>.
\<close>

definition setUniqueMapIdOfMap :: "nat \<Rightarrow> component \<Rightarrow> component" where
  "setUniqueMapIdOfMap n s =
     s\<lparr>p_uniqueMapId := Some (''f'' @ toString16 n),
       container_id := Some (''f'' @ toString16 n)\<rparr>"

definition call :: "service_call \<Rightarrow> component \<Rightarrow> component" where
  "call c s = s\<lparr>service_calls := service_calls s @ [c]\<rparr>"

definition setPlacemarks :: "YandexPlacemarkComponent \<Rightarrow> component \<Rightarrow> component" where
  "setPlacemarks placemark s =
     call (CreatePlacemark (geometry placemark) (placemarkProperties placemark)
             (placemarkOptions placemark)) s"

definition createMultiroute :: "YandexMultirouteComponent \<Rightarrow> component \<Rightarrow> component" where
  "createMultiroute multiroute s =
     call (CreateMultiroute (multirouteModel multiroute) (multirouteOptions multiroute)) s"

definition createGeoObject' :: "YandexGeoobjectComponent \<Rightarrow> component \<Rightarrow> component" where
  "createGeoObject' geoObject s =
     call (CreateGeoObject (geoObjectFeature geoObject) (geoObjectOptions geoObject)) s"

text \<open>The function given to \<open>subscribe\<close> in \<open>_createMapWithObjects\<close>.\<close>

definition on_initMap :: "component \<Rightarrow> component" where
  "on_initMap s =
     (let s1 = combineInputs s;
          s2 = call (CreateMap (p_uniqueMapId s1) (mapState s1) (heap s1 (mapState s1))
                       (mapOptions s1)) s1;
          s3 = foldl (\<lambda>t placemark. setPlacemarks placemark t) s2 (mc_placemarks s2);
          s4 = foldl (\<lambda>t multiroute. createMultiroute multiroute t) s3 (multiroutes s3)
      in foldl (\<lambda>t geoObject. createGeoObject' geoObject t) s4 (mc_geoObjects s4))"

text \<open>
  \<open>_createMapWithObjects\<close> calls \<open>initMap()\<close> and subscribes through \<open>take(1)\<close>.
\<close>

definition createMapWithObjects :: "component \<Rightarrow> component" where
  "createMapWithObjects s = (call InitMap s)\<lparr>initMap_subs := Suc (initMap_subs s)\<rparr>"

definition ngOnInit :: "nat \<Rightarrow> component \<Rightarrow> component" where
  "ngOnInit n s = createMapWithObjects (setUniqueMapIdOfMap n s)"

text \<open>
  The observable of \<open>initMap()\<close> emits. Every live subscription runs its function once;
  \<open>take(1)\<close> then completes it, so none is live afterwards.
\<close>

definition initMap_emit :: "component \<Rightarrow> component" where
  "initMap_emit s = ((on_initMap ^^ initMap_subs s) s)\<lparr>initMap_subs := 0\<rparr>"

fun is_createMap :: "service_call \<Rightarrow> bool" where
  "is_createMap (CreateMap uid r fs opts) = True"
| "is_createMap InitMap = False"
| "is_createMap (CreatePlacemark g p opts) = False"
| "is_createMap (CreateMultiroute m opts) = False"
| "is_createMap (CreateGeoObject f opts) = False"

definition createMap_calls :: "component \<Rightarrow> service_call list" where
  "createMap_calls s = filter is_createMap (service_calls s)"

text \<open>
  Every reference the component holds is to an object that exists: it lies below the
  allocation pointer.
\<close>

definition allocated :: "component \<Rightarrow> bool" where
  "allocated s \<longleftrightarrow>
     mapState s < next_obj s \<and>
     list_all (\<lambda>m. case multirouteModel m of None \<Rightarrow> True | Some r \<Rightarrow> r < next_obj s)
       (multiroutes s)"

text \<open>
  How \<open>_combineInputs\<close> may leave a multiroute \<open>m\<close>: as \<open>m'\<close>, with the same
  reference points and options, the model it had if it had one, and some model otherwise.
\<close>

definition given_model :: "YandexMultirouteComponent \<Rightarrow> YandexMultirouteComponent \<Rightarrow> bool" where
  "given_model m m' \<longleftrightarrow>
     referencePoints m' = referencePoints m \<and> multirouteOptions m' = multirouteOptions m \<and>
     (case multirouteModel m of
        None \<Rightarrow> multirouteModel m' \<noteq> None
      | Some r \<Rightarrow> multirouteModel m' = Some r)"

section \<open>AngularYandexMapsModule\<close>

text \<open>
  The injection token \<open>YA_MAP_CONFIG\<close> is declared in \<open>./models/models\<close>, which is not
  among the sources; \<open>forRoot\<close> takes it as a parameter. The configuration is any value.
\<close>

datatype ng_module = CommonModule | AngularYandexMapsModule

record ('t, 'c) provider =
  provide :: 't
  useValue :: 'c

record ('t, 'c) ModuleWithProviders =
  ngModule :: ng_module
  providers :: "('t, 'c) provider list"

definition forRoot :: "'t \<Rightarrow> 'c \<Rightarrow> ('t, 'c) ModuleWithProviders" where
  "forRoot YA_MAP_CONFIG config =
     \<lparr>ngModule = AngularYandexMapsModule,
      providers = [\<lparr>provide = YA_MAP_CONFIG, useValue = config\<rparr>]\<rparr>"

section \<open>YaControlDirective\<close>

text \<open>
  Of this directive the sources hold the test only. The test binds two inputs, \<open>type\<close>
  and \<open>parameters\<close>; on the first change detection the control is constructed with the
  parameters and added to the map's controls.
\<close>

datatype control_call =
    NewControl string jsval ref
  | ControlsAdd ref ref

record control_directive =
  ctl_type :: string
  ctl_parameters :: jsval
  ctl_control :: "ref option"
  ctl_calls :: "control_call list"
  console_warn :: "string list"
  ctl_next_ref :: ref

text \<open>
  Modelled from the spec: the initialisation of \<open>YaControlDirective\<close>, which is not among
  the sources. When the map \<open>m\<close> arrives, the control is constructed from the inputs and
  added to the controls of the map, as the test \<open>should create control\<close> expects.
\<close>

definition control_init :: "ref \<Rightarrow> control_directive \<Rightarrow> control_directive" where
  "control_init m s =
     s\<lparr>ctl_control := Some (ctl_next_ref s),
       ctl_calls := ctl_calls s @
         [NewControl (ctl_type s) (ctl_parameters s) (ctl_next_ref s),
          ControlsAdd m (ctl_next_ref s)],
       ctl_next_ref := Suc (ctl_next_ref s)\<rparr>"

text \<open>
  Modelled from the spec: \<open>YaControlDirective.ngOnChanges\<close>, which is not among the
  sources. The spec has no error taxonomy beyond console warnings when incompatible
  property changes are detected post-initialization: once the control exists, a change of
  an input is answered by a call of \<open>console.warn\<close> with the message \<open>msg\<close>, and by
  nothing else.
\<close>

definition control_ngOnChanges ::
  "string \<Rightarrow> SimpleChanges \<Rightarrow> control_directive \<Rightarrow> error + control_directive" where
  "control_ngOnChanges msg changes s =
     (case ctl_control s of
        None \<Rightarrow> Inr s
      | Some c \<Rightarrow>
          (if changes ''type'' \<noteq> None \<or> changes ''parameters'' \<noteq> None
           then Inr (s\<lparr>console_warn := console_warn s @ [msg]\<rparr>)
           else Inr s))"

section \<open>Concrete inputs\<close>

text \<open>
  Children whose create methods assign an id and return an SDK object, here a number.
\<close>

definition example_api :: "nat children_api" where
  "example_api =
     \<lparr>createPlacemark = (\<lambda>m c ch. (ch\<lparr>child_id := Some ''f1c2''\<rparr>, 100)),
      createGeoObject = (\<lambda>m c ch. (ch\<lparr>child_id := Some ''f9a0''\<rparr>, 200))\<rparr>"

text \<open>
  A directive before \<open>createClusterer\<close>, with two placemarks and a geo-object as content
  children, none of them created yet.
\<close>

definition fresh_directive :: "nat directive" where
  "fresh_directive =
     \<lparr>placemarks = [0, 1], geoObjects = [2],
      options = JObj [(''gridSize'', JNum 64)],
      emitted = [], p_sub = [], p_sub_closed = False, p_clusterer = None,
      children = (\<lambda>p. \<lparr>child_id = None\<rparr>),
      listeners = (\<lambda>c. []),
      sdk_calls = [], next_ref = 0\<rparr>"

text \<open>
  A directive whose clusterer \<open>0\<close> exists on the map \<open>7\<close>, with no content child so far.
\<close>

definition live_directive :: "nat directive" where
  "live_directive =
     \<lparr>placemarks = [], geoObjects = [],
      options = JUndefined,
      emitted = [(Out_ready, YaReadyEvent 0)],
      p_sub = [\<lparr>sub_kind = Placemark, sub_map = 7, sub_clusterer = 0\<rparr>,
               \<lparr>sub_kind = GeoObject, sub_map = 7, sub_clusterer = 0\<rparr>],
      p_sub_closed = False, p_clusterer = Some 0,
      children = (\<lambda>p. \<lparr>child_id = None\<rparr>),
      listeners = (\<lambda>c. if c = 0 then handlers 0 else []),
      sdk_calls = [NewClusterer 0 JUndefined], next_ref = 1\<rparr>"

definition options_change :: SimpleChanges where
  "options_change =
     [''options'' \<mapsto>
        \<lparr>previousValue = JObj [(''gridSize'', JNum 64)],
         currentValue = JObj [(''gridSize'', JNum 128)],
         firstChange = False\<rparr>]"

definition hintopen_event :: sdk_event where
  "hintopen_event = \<lparr>originalEvent_type = ''hintopen'', event_data = JNull\<rparr>"

text \<open>
  A map component whose host supplied the state \<open>{ type: 'yandex#map' }\<close> (the object
  \<open>0\<close>), a zoom and a center, with one placemark and one multiroute that has no model.
\<close>

definition example_component :: component where
  "example_component =
     \<lparr>center = JArr [JNum 55, JNum 37], zoom = JNum 10,
      mapState = 0, mapOptions = JObj [],
      p_uniqueMapId = None,
      mc_placemarks =
        [\<lparr>geometry = JArr [JNum 55, JNum 37], placemarkProperties = JUndefined,
          placemarkOptions = JUndefined\<rparr>],
      multiroutes =
        [\<lparr>referencePoints = JArr [JStr ''Moscow'', JStr ''Kazan''], multirouteModel = None,
          multirouteOptions = JUndefined\<rparr>],
      mc_geoObjects = [],
      heap = (\<lambda>r. if r = 0 then [''type'' \<mapsto> JStr ''yandex#map''] else Map.empty),
      next_obj = 1,
      container_id = None, service_calls = [], initMap_subs = 0\<rparr>"

text \<open>A control that has been initialised, and a change of its parameters.\<close>

definition example_control :: control_directive where
  "example_control =
     control_init 7
       \<lparr>ctl_type = ''RoutePanel'', ctl_parameters = JUndefined, ctl_control = None,
        ctl_calls = [], console_warn = [], ctl_next_ref = 0\<rparr>"

definition parameters_change :: SimpleChanges where
  "parameters_change =
     [''parameters'' \<mapsto>
        \<lparr>previousValue = JUndefined,
         currentValue = JObj [(''options'', JObj [(''floatIndex'', JNum 5)])],
         firstChange = False\<rparr>]"

section \<open>Notions used by the proofs\<close>

text \<open>
  The clusterer \<open>c\<close> exists and carries the four handlers of this directive, once each.
\<close>

definition registered :: "ref \<Rightarrow> 'o directive \<Rightarrow> bool" where
  "registered c s \<longleftrightarrow> c < next_ref s \<and> listeners s c = handlers c"

text \<open>
  The number of times the child \<open>p\<close> has been added, plus one while its \<open>id\<close> still
  passes \<open>!child.id\<close>.
\<close>

definition budget :: "ref \<Rightarrow> 'o directive \<Rightarrow> nat" where
  "budget p s = adds_of p s + (if falsy_id (child_id (children s p)) then 1 else 0)"

section \<open>Properties of YaClustererDirective\<close>

subsection \<open>What the operations leave alone\<close>

lemma addNew_frame:
  "listeners (addNew create c ps s) = listeners s \<and>
   emitted (addNew create c ps s) = emitted s \<and>
   next_ref (addNew create c ps s) = next_ref s \<and>
   p_clusterer (addNew create c ps s) = p_clusterer s \<and>
   p_sub (addNew create c ps s) = p_sub s \<and>
   p_sub_closed (addNew create c ps s) = p_sub_closed s \<and>
   placemarks (addNew create c ps s) = placemarks s \<and>
   geoObjects (addNew create c ps s) = geoObjects s \<and>
   options (addNew create c ps s) = options s"
  by (induction ps arbitrary: s) (auto split: prod.splits)

lemma sub_next_frame:
  "listeners (sub_next api sub ps s) = listeners s \<and>
   emitted (sub_next api sub ps s) = emitted s \<and>
   next_ref (sub_next api sub ps s) = next_ref s \<and>
   p_clusterer (sub_next api sub ps s) = p_clusterer s \<and>
   p_sub (sub_next api sub ps s) = p_sub s \<and>
   p_sub_closed (sub_next api sub ps s) = p_sub_closed s \<and>
   placemarks (sub_next api sub ps s) = placemarks s \<and>
   geoObjects (sub_next api sub ps s) = geoObjects s \<and>
   options (sub_next api sub ps s) = options s"
  by (simp add: sub_next_def addNew_frame split: child_kind.splits)

lemma foldl_sub_next_frame:
  "listeners (foldl (\<lambda>t sub. sub_next api sub ps t) s subs) = listeners s \<and>
   emitted (foldl (\<lambda>t sub. sub_next api sub ps t) s subs) = emitted s \<and>
   next_ref (foldl (\<lambda>t sub. sub_next api sub ps t) s subs) = next_ref s \<and>
   p_clusterer (foldl (\<lambda>t sub. sub_next api sub ps t) s subs) = p_clusterer s \<and>
   p_sub (foldl (\<lambda>t sub. sub_next api sub ps t) s subs) = p_sub s \<and>
   p_sub_closed (foldl (\<lambda>t sub. sub_next api sub ps t) s subs) = p_sub_closed s"
  by (induction subs arbitrary: s) (simp_all add: sub_next_frame)

lemma changes_emit_frame:
  "listeners (changes_emit api k ps s) = listeners s \<and>
   emitted (changes_emit api k ps s) = emitted s \<and>
   next_ref (changes_emit api k ps s) = next_ref s \<and>
   p_clusterer (changes_emit api k ps s) = p_clusterer s \<and>
   p_sub (changes_emit api k ps s) = p_sub s \<and>
   p_sub_closed (changes_emit api k ps s) = p_sub_closed s"
  by (simp add: changes_emit_def foldl_sub_next_frame split: child_kind.splits)

lemma createClusterer_result:
  "\<exists>s'. createClusterer api m s = Inr (s', next_ref s) \<and>
        listeners s' = (listeners s)(next_ref s := handlers (next_ref s)) \<and>
        next_ref s' = Suc (next_ref s) \<and>
        p_clusterer s' = Some (next_ref s) \<and>
        emitted s' = emitted s @ [(Out_ready, YaReadyEvent (next_ref s))]"
  by (simp add: createClusterer_def Let_def addEventListeners_def sub_add_def sub_next_frame)


lemma createClusterer_registers:
  assumes "createClusterer api m s = Inr (s', c)"
  shows "registered c s'"
  using assms createClusterer_result [of api m s]
  by (auto simp: registered_def)

lemma createClusterer_keeps:
  assumes "registered c s" and "createClusterer api m s = Inr (s', c')"
  shows "registered c s'"
  using assms createClusterer_result [of api m s]
  by (auto simp: registered_def)

lemma step_keeps:
  assumes "registered c s" and "step api ev s = Inr s'"
  shows "registered c s'"
proof (cases ev)
  case (CreateClusterer m)
  with assms show ?thesis
    by (auto split: sum.splits dest: createClusterer_keeps)
next
  case (BindOptions v)
  with assms show ?thesis by (auto simp: registered_def)
next
  case (NgOnChanges changes)
  with assms show ?thesis
    by (auto simp: registered_def ngOnChanges_def updateClusterer_def split: option.splits)
next
  case (ChangesEmit k ps)
  with assms show ?thesis by (auto simp: registered_def changes_emit_frame)
next
  case (SdkEvent c' e)
  with assms show ?thesis by (auto simp: registered_def deliver_def fire_def)
next
  case NgOnDestroy
  with assms show ?thesis by (auto simp: registered_def ngOnDestroy_def)
qed

lemma run_keeps:
  assumes "registered c s" and "run api evs s = Inr s'"
  shows "registered c s'"
  using assms
proof (induction evs arbitrary: s)
  case Nil
  then show ?case by simp
next
  case (Cons ev evs)
  then show ?case by (auto split: sum.splits dest: step_keeps)
qed

lemma step_total: "\<exists>s'. step api ev s = Inr s'"
proof (cases ev)
  case (CreateClusterer m)
  obtain t where "createClusterer api m s = Inr (t, next_ref s)"
    using createClusterer_result by blast
  with CreateClusterer show ?thesis by simp
qed simp_all

lemma run_total: "\<exists>s'. run api evs s = Inr s'"
proof (induction evs arbitrary: s)
  case Nil
  show ?case by simp
next
  case (Cons ev evs)
  obtain t where "step api ev s = Inr t" using step_total by blast
  with Cons show ?case by simp
qed

lemma deliver_registered:
  assumes "registered c s"
  shows "emitted (deliver c e s) =
           emitted s @
           map (\<lambda>l. (lst_output l, YaEvent c (originalEvent_type e) e))
             (filter (\<lambda>l. originalEvent_type e \<in> set (lst_names l)) (handlers c))"
  using assms by (simp add: registered_def deliver_def fire_def handlers_def)


lemma adds_of_visit:
  "adds_of p (s\<lparr>children := f, sdk_calls := sdk_calls s @ [ClustererAdd c q obj]\<rparr>) =
     adds_of p s + (if q = p then 1 else 0)"
  by (simp add: adds_of_def)

lemma addNew_skips:
  assumes "\<not> falsy_id (child_id (children s p))"
  shows "children (addNew create c ps s) p = children s p \<and>
         adds_of p (addNew create c ps s) = adds_of p s"
  using assms
proof (induction ps arbitrary: s)
  case Nil
  show ?case by simp
next
  case (Cons q ps)
  show ?case
  proof (cases "falsy_id (child_id (children s q))")
    case False
    then show ?thesis using Cons by simp
  next
    case True
    then have "q \<noteq> p" using Cons.prems by auto
    obtain ch obj where cr: "create (children s q) = (ch, obj)" by (cases "create (children s q)")
    let ?t = "s\<lparr>children := (children s)(q := ch),
                 sdk_calls := sdk_calls s @ [ClustererAdd c q obj]\<rparr>"
    have "\<not> falsy_id (child_id (children ?t p))" using \<open>q \<noteq> p\<close> Cons.prems by simp
    from Cons.IH [OF this]
    have "children (addNew create c ps ?t) p = children s p \<and>
          adds_of p (addNew create c ps ?t) = adds_of p s"
      using \<open>q \<noteq> p\<close> by (simp add: adds_of_visit)
    then show ?thesis using True cr by simp
  qed
qed

lemma addNew_outside:
  assumes "p \<notin> set ps"
  shows "children (addNew create c ps s) p = children s p \<and>
         adds_of p (addNew create c ps s) = adds_of p s"
  using assms
proof (induction ps arbitrary: s)
  case Nil
  show ?case by simp
next
  case (Cons q ps)
  then have "q \<noteq> p" and "p \<notin> set ps" by auto
  show ?case
  proof (cases "falsy_id (child_id (children s q))")
    case False
    then show ?thesis using Cons.IH [OF \<open>p \<notin> set ps\<close>] by simp
  next
    case True
    obtain ch obj where cr: "create (children s q) = (ch, obj)" by (cases "create (children s q)")
    let ?t = "s\<lparr>children := (children s)(q := ch),
                 sdk_calls := sdk_calls s @ [ClustererAdd c q obj]\<rparr>"
    from Cons.IH [OF \<open>p \<notin> set ps\<close>, of ?t]
    have "children (addNew create c ps ?t) p = children s p \<and>
          adds_of p (addNew create c ps ?t) = adds_of p s"
      using \<open>q \<noteq> p\<close> by (simp add: adds_of_visit)
    then show ?thesis using True cr by simp
  qed
qed

lemma addNew_budget:
  assumes "\<And>ch. \<not> falsy_id (child_id (fst (create ch)))"
  shows "budget p (addNew create c ps s) = budget p s"
proof (induction ps arbitrary: s)
  case Nil
  show ?case by simp
next
  case (Cons q ps)
  show ?case
  proof (cases "falsy_id (child_id (children s q))")
    case False
    then show ?thesis using Cons by simp
  next
    case True
    obtain ch obj where cr: "create (children s q) = (ch, obj)" by (cases "create (children s q)")
    have "\<not> falsy_id (child_id ch)" using assms [of "children s q"] cr by simp
    then have "budget p (s\<lparr>children := (children s)(q := ch),
                    sdk_calls := sdk_calls s @ [ClustererAdd c q obj]\<rparr>) = budget p s"
      using True by (simp add: budget_def adds_of_visit)
    then show ?thesis using True cr Cons by simp
  qed
qed


lemma adds_of_cong:
  "sdk_calls t = sdk_calls s \<Longrightarrow> adds_of p t = adds_of p s"
  by (simp add: adds_of_def)

lemma budget_cong:
  "children t = children s \<Longrightarrow> sdk_calls t = sdk_calls s \<Longrightarrow> budget p t = budget p s"
  by (simp add: budget_def adds_of_def)

lemma sub_next_skips:
  assumes "\<not> falsy_id (child_id (children s p))"
  shows "children (sub_next api sub ps s) p = children s p \<and>
         adds_of p (sub_next api sub ps s) = adds_of p s"
  using assms by (simp add: sub_next_def addNew_skips split: child_kind.splits)

lemma sub_next_budget:
  assumes "sets_id api"
  shows "budget p (sub_next api sub ps s) = budget p s"
  using assms by (simp add: sub_next_def sets_id_def addNew_budget split: child_kind.splits)

lemma foldl_sub_next_skips:
  assumes "\<not> falsy_id (child_id (children s p))"
  shows "children (foldl (\<lambda>t sub. sub_next api sub ps t) s subs) p = children s p \<and>
         adds_of p (foldl (\<lambda>t sub. sub_next api sub ps t) s subs) = adds_of p s"
  using assms
proof (induction subs arbitrary: s)
  case Nil
  show ?case by simp
next
  case (Cons sub subs)
  have "\<not> falsy_id (child_id (children (sub_next api sub ps s) p))"
    using Cons.prems by (simp add: sub_next_skips)
  from Cons.IH [OF this] show ?case
    using Cons.prems by (simp add: sub_next_skips)
qed

lemma foldl_sub_next_budget:
  assumes "sets_id api"
  shows "budget p (foldl (\<lambda>t sub. sub_next api sub ps t) s subs) = budget p s"
  by (induction subs arbitrary: s) (simp_all add: sub_next_budget [OF assms])

lemma changes_emit_skips:
  assumes "\<not> falsy_id (child_id (children s p))"
  shows "adds_of p (changes_emit api k ps s) = adds_of p s"
proof (cases k)
  case Placemark
  have "\<not> falsy_id (child_id (children (s\<lparr>placemarks := ps\<rparr>) p))" using assms by simp
  from foldl_sub_next_skips [OF this] show ?thesis
    using Placemark by (simp add: changes_emit_def adds_of_def)
next
  case GeoObject
  have "\<not> falsy_id (child_id (children (s\<lparr>geoObjects := ps\<rparr>) p))" using assms by simp
  from foldl_sub_next_skips [OF this] show ?thesis
    using GeoObject by (simp add: changes_emit_def adds_of_def)
qed

lemma changes_emit_budget:
  assumes "sets_id api"
  shows "budget p (changes_emit api k ps s) = budget p s"
proof (cases k)
  case Placemark
  have "budget p (s\<lparr>placemarks := ps\<rparr>) = budget p s"
    by (simp add: budget_def adds_of_def)
  then show ?thesis
    using Placemark by (simp add: changes_emit_def foldl_sub_next_budget [OF assms])
next
  case GeoObject
  have "budget p (s\<lparr>geoObjects := ps\<rparr>) = budget p s"
    by (simp add: budget_def adds_of_def)
  then show ?thesis
    using GeoObject by (simp add: changes_emit_def foldl_sub_next_budget [OF assms])
qed


lemma sub_add_state:
  "children (sub_add x s) = children s \<and> sdk_calls (sub_add x s) = sdk_calls s \<and>
   next_ref (sub_add x s) = next_ref s \<and> p_clusterer (sub_add x s) = p_clusterer s \<and>
   placemarks (sub_add x s) = placemarks s \<and> geoObjects (sub_add x s) = geoObjects s"
  by (simp add: sub_add_def)

lemma budget_sub_add: "budget p (sub_add x s) = budget p s"
  by (simp add: budget_def adds_of_def sub_add_def)

lemma createClusterer_skips:
  assumes "\<not> falsy_id (child_id (children s p))" and "createClusterer api m s = Inr (s', c)"
  shows "adds_of p s' = adds_of p s"
proof -
  define s1 where "s1 = s\<lparr>next_ref := Suc (next_ref s),
                 listeners := (listeners s)(next_ref s := []),
                 sdk_calls := sdk_calls s @ [NewClusterer (next_ref s) (options s)],
                 p_clusterer := Some (next_ref s)\<rparr>"
  define psub where "psub = \<lparr>sub_kind = Placemark, sub_map = m, sub_clusterer = next_ref s\<rparr>"
  define gsub where "gsub = \<lparr>sub_kind = GeoObject, sub_map = m, sub_clusterer = next_ref s\<rparr>"
  define s2 where "s2 = sub_add psub (sub_next api psub (placemarks s1) s1)"
  define s3 where "s3 = sub_add gsub (sub_next api gsub (geoObjects s2) s2)"
  have r: "addEventListeners s3 = Inr s'"
    using assms(2)
    by (simp add: createClusterer_def Let_def s1_def psub_def gsub_def s2_def s3_def
        split: sum.splits)
  have 1: "children s1 p = children s p \<and> adds_of p s1 = adds_of p s"
    by (simp add: s1_def adds_of_def)
  then have "\<not> falsy_id (child_id (children s1 p))" using assms(1) by simp
  then have 2: "children s2 p = children s p \<and> adds_of p s2 = adds_of p s"
    using 1 sub_next_skips [of s1 p api psub "placemarks s1"]
    by (simp add: s2_def sub_add_state adds_of_def)
  then have "\<not> falsy_id (child_id (children s2 p))" using assms(1) by simp
  then have 3: "adds_of p s3 = adds_of p s"
    using 2 sub_next_skips [of s2 p api gsub "geoObjects s2"]
    by (simp add: s3_def sub_add_state adds_of_def)
  have "sdk_calls s' = sdk_calls s3"
    using r by (auto simp: addEventListeners_def split: option.splits)
  then show ?thesis using 3 by (simp add: adds_of_def)
qed

lemma createClusterer_budget:
  assumes "sets_id api" and "createClusterer api m s = Inr (s', c)"
  shows "budget p s' = budget p s"
proof -
  define s1 where "s1 = s\<lparr>next_ref := Suc (next_ref s),
                 listeners := (listeners s)(next_ref s := []),
                 sdk_calls := sdk_calls s @ [NewClusterer (next_ref s) (options s)],
                 p_clusterer := Some (next_ref s)\<rparr>"
  define psub where "psub = \<lparr>sub_kind = Placemark, sub_map = m, sub_clusterer = next_ref s\<rparr>"
  define gsub where "gsub = \<lparr>sub_kind = GeoObject, sub_map = m, sub_clusterer = next_ref s\<rparr>"
  define s2 where "s2 = sub_add psub (sub_next api psub (placemarks s1) s1)"
  define s3 where "s3 = sub_add gsub (sub_next api gsub (geoObjects s2) s2)"
  have r: "addEventListeners s3 = Inr s'"
    using assms(2)
    by (simp add: createClusterer_def Let_def s1_def psub_def gsub_def s2_def s3_def
        split: sum.splits)
  have 1: "budget p s1 = budget p s"
    by (simp add: s1_def budget_def adds_of_def)
  have 2: "budget p s2 = budget p s1"
    using sub_next_budget [OF assms(1), of p psub "placemarks s1" s1]
    by (simp add: s2_def budget_sub_add)
  have 3: "budget p s3 = budget p s2"
    using sub_next_budget [OF assms(1), of p gsub "geoObjects s2" s2]
    by (simp add: s3_def budget_sub_add)
  have "budget p s' = budget p s3"
    using r by (auto simp: addEventListeners_def budget_def adds_of_def split: option.splits)
  then show ?thesis using 1 2 3 by simp
qed

lemma step_skips:
  assumes "\<not> falsy_id (child_id (children s p))" and "step api ev s = Inr s'"
  shows "adds_of p s' = adds_of p s"
proof (cases ev)
  case (CreateClusterer m)
  with assms show ?thesis
    by (auto split: sum.splits dest: createClusterer_skips)
next
  case (BindOptions v)
  with assms show ?thesis by (auto simp: adds_of_def)
next
  case (NgOnChanges changes)
  with assms show ?thesis
    by (auto simp: adds_of_def ngOnChanges_def updateClusterer_def split: option.splits)
next
  case (ChangesEmit k ps)
  with assms show ?thesis by (auto simp: changes_emit_skips)
next
  case (SdkEvent c' e)
  with assms show ?thesis by (auto simp: adds_of_def deliver_def fire_def)
next
  case NgOnDestroy
  with assms show ?thesis by (auto simp: adds_of_def ngOnDestroy_def)
qed

lemma step_budget:
  assumes "sets_id api" and "step api ev s = Inr s'"
  shows "budget p s' = budget p s"
proof (cases ev)
  case (CreateClusterer m)
  with assms show ?thesis
    by (auto split: sum.splits dest: createClusterer_budget)
next
  case (BindOptions v)
  with assms show ?thesis by (auto simp: budget_def adds_of_def)
next
  case (NgOnChanges changes)
  with assms show ?thesis
    by (auto simp: budget_def adds_of_def ngOnChanges_def updateClusterer_def split: option.splits)
next
  case (ChangesEmit k ps)
  with assms show ?thesis by (auto simp: changes_emit_budget)
next
  case (SdkEvent c' e)
  with assms show ?thesis by (auto simp: budget_def adds_of_def deliver_def fire_def)
next
  case NgOnDestroy
  with assms show ?thesis by (auto simp: budget_def adds_of_def ngOnDestroy_def)
qed

lemma run_budget:
  assumes "sets_id api" and "run api evs s = Inr s'"
  shows "budget p s' = budget p s"
  using assms(2)
proof (induction evs arbitrary: s)
  case Nil
  then show ?case by simp
next
  case (Cons ev evs)
  then show ?case
    by (auto split: sum.splits dest: step_budget [OF assms(1)])
qed


lemma step_keeps_created:
  assumes "p_clusterer s \<noteq> None" and "step api ev s = Inr s'"
  shows "p_clusterer s' \<noteq> None"
proof (cases ev)
  case (CreateClusterer m)
  obtain t where "createClusterer api m s = Inr (t, next_ref s)" and "p_clusterer t = Some (next_ref s)"
    using createClusterer_result by blast
  with CreateClusterer assms show ?thesis by auto
next
  case (BindOptions v)
  with assms show ?thesis by auto
next
  case (NgOnChanges changes)
  with assms show ?thesis
    by (auto simp: ngOnChanges_def updateClusterer_def split: option.splits)
next
  case (ChangesEmit k ps)
  with assms show ?thesis by (auto simp: changes_emit_frame)
next
  case (SdkEvent c' e)
  with assms show ?thesis by (auto simp: deliver_def fire_def)
next
  case NgOnDestroy
  with assms show ?thesis by (auto simp: ngOnDestroy_def)
qed

lemma run_keeps_created:
  assumes "p_clusterer s \<noteq> None" and "run api evs s = Inr s'"
  shows "p_clusterer s' \<noteq> None"
  using assms
proof (induction evs arbitrary: s)
  case Nil
  then show ?case by simp
next
  case (Cons ev evs)
  obtain t where t: "step api ev s = Inr t" using step_total by blast
  then have "p_clusterer t \<noteq> None" using Cons.prems(1) step_keeps_created by blast
  moreover have "run api evs t = Inr s'" using Cons.prems(2) t by simp
  ultimately show ?case by (rule Cons.IH)
qed

subsection \<open>Changes before the clusterer exists\<close>

text \<open>
  C9. If \<open>ngOnChanges\<close> fires before \<open>createClusterer\<close> has been called, so that the
  reference \<open>_clusterer\<close> is still unset, the call returns the state it was given: no SDK
  call is made and no field of the directive changes.
\<close>

theorem ngOnChanges_before_create:
  assumes "p_clusterer s = None"
  shows "ngOnChanges changes s = s"
  using assms by (simp add: ngOnChanges_def updateClusterer_def)


subsection \<open>Changes once the clusterer exists\<close>

text \<open>
  C4. Once \<open>createClusterer\<close> has returned, whatever has happened to the directive
  since, an \<open>ngOnChanges\<close> whose changes hold \<open>options\<close> makes exactly one SDK call:
  \<open>options.set\<close> on the current clusterer, with the new value of the input as it is.
\<close>

theorem ngOnChanges_forwards_options:
  assumes "createClusterer api m s0 = Inr (s1, c0)"
    and "run api evs s1 = Inr s"
    and "changes ''options'' = Some ch"
  shows "\<exists>c. p_clusterer s = Some c \<and>
             ngOnChanges changes s =
               s\<lparr>sdk_calls := sdk_calls s @ [OptionsSet c (currentValue ch)]\<rparr>"
proof -
  have "p_clusterer s1 \<noteq> None"
    using assms(1) createClusterer_result [of api m s0] by auto
  then have "p_clusterer s \<noteq> None"
    using assms(2) by (rule run_keeps_created)
  then obtain c where "p_clusterer s = Some c" by blast
  then show ?thesis
    using assms(3) by (simp add: ngOnChanges_def updateClusterer_def)
qed

subsection \<open>SDK events become outputs\<close>

text \<open>
  C1. After \<open>createClusterer\<close> has returned the clusterer \<open>c\<close>, and whatever has
  happened to the directive since, an SDK event delivered to \<open>c\<close> whose original type
  is \<open>hintopen\<close> or \<open>hintclose\<close> makes the \<open>hint\<close> output emit, and one of type
  \<open>mapchange\<close>, \<open>optionschange\<close> or \<open>parentchange\<close> makes \<open>mapChange\<close>,
  \<open>optionsChange\<close> or \<open>parentChange\<close> emit. There is exactly one emission; it carries
  the clusterer \<open>c\<close>, the original type of the event, and the event.
\<close>

theorem sdk_events_reach_outputs:
  assumes "createClusterer api m s0 = Inr (s1, c)" and "run api evs s1 = Inr s"
  shows "(originalEvent_type e = ''hintopen'' \<or> originalEvent_type e = ''hintclose'' \<longrightarrow>
            emitted (deliver c e s) = emitted s @ [(Out_hint, YaEvent c (originalEvent_type e) e)]) \<and>
         (originalEvent_type e = ''mapchange'' \<longrightarrow>
            emitted (deliver c e s) = emitted s @ [(Out_mapChange, YaEvent c (originalEvent_type e) e)]) \<and>
         (originalEvent_type e = ''optionschange'' \<longrightarrow>
            emitted (deliver c e s) = emitted s @ [(Out_optionsChange, YaEvent c (originalEvent_type e) e)]) \<and>
         (originalEvent_type e = ''parentchange'' \<longrightarrow>
            emitted (deliver c e s) = emitted s @ [(Out_parentChange, YaEvent c (originalEvent_type e) e)])"
proof -
  have "registered c s"
    using assms createClusterer_registers run_keeps by blast
  then show ?thesis
    by (auto simp: deliver_registered handlers_def)
qed

subsection \<open>Children are added once\<close>

text \<open>
  C8. In any step of the directive, and so on every emission of the \<open>placemarks\<close> or
  \<open>geoObjects\<close> list, a child is added to a clusterer only if its \<open>id\<close> was unset
  before the step (undefined or empty, which is what \<open>!child.id\<close> tests). When the
  create methods of the children assign an id, no run of the directive, however often the
  lists emit, adds a child more than once.
\<close>

theorem children_added_at_most_once:
  assumes "step api ev s = Inr t" and "run api evs s = Inr s'"
  shows "(adds_of p s < adds_of p t \<longrightarrow> falsy_id (child_id (children s p))) \<and>
         (sets_id api \<longrightarrow> adds_of p s' \<le> adds_of p s + 1)"
proof -
  have "adds_of p t = adds_of p s" if "\<not> falsy_id (child_id (children s p))"
    using step_skips [OF that assms(1)] .
  then have "adds_of p s < adds_of p t \<longrightarrow> falsy_id (child_id (children s p))"
    by (cases "falsy_id (child_id (children s p))") simp_all
  moreover have "adds_of p s' \<le> adds_of p s + 1" if "sets_id api"
  proof -
    have "adds_of p s' \<le> budget p s'" by (simp add: budget_def)
    also have "\<dots> = budget p s" using run_budget [OF that assms(2)] .
    also have "\<dots> \<le> adds_of p s + 1" by (simp add: budget_def)
    finally show ?thesis .
  qed
  ultimately show ?thesis by blast
qed

section \<open>Properties of YandexMapComponent\<close>

declare toString16.simps [simp del]

lemma set_field_frame:
  "center (set_field r f v s) = center s \<and> zoom (set_field r f v s) = zoom s \<and>
   mapState (set_field r f v s) = mapState s \<and> mapOptions (set_field r f v s) = mapOptions s \<and>
   p_uniqueMapId (set_field r f v s) = p_uniqueMapId s \<and>
   mc_placemarks (set_field r f v s) = mc_placemarks s \<and>
   multiroutes (set_field r f v s) = multiroutes s \<and>
   mc_geoObjects (set_field r f v s) = mc_geoObjects s \<and>
   next_obj (set_field r f v s) = next_obj s \<and>
   container_id (set_field r f v s) = container_id s \<and>
   service_calls (set_field r f v s) = service_calls s \<and>
   initMap_subs (set_field r f v s) = initMap_subs s"
  by (simp add: set_field_def)

lemma heap_set_field:
  "heap (set_field r f v s) r' f' = (if r' = r \<and> f' = f then Some v else heap s r' f')"
  by (simp add: set_field_def)

lemma forEach_None:
  assumes "multirouteModel m = None"
  shows "forEach_multiroute (m # ms) s =
    (m\<lparr>multirouteModel := Some (next_obj s)\<rparr> #
       fst (forEach_multiroute ms
             (set_field (next_obj s) ''referencePoints'' (referencePoints m)
               (s\<lparr>heap := (heap s)(next_obj s := Map.empty), next_obj := Suc (next_obj s)\<rparr>))),
     snd (forEach_multiroute ms
           (set_field (next_obj s) ''referencePoints'' (referencePoints m)
             (s\<lparr>heap := (heap s)(next_obj s := Map.empty), next_obj := Suc (next_obj s)\<rparr>))))"
  using assms by (simp add: case_prod_beta)

lemma forEach_Some:
  assumes "multirouteModel m = Some r"
  shows "forEach_multiroute (m # ms) s =
    (m\<lparr>multirouteModel := Some r\<rparr> #
       fst (forEach_multiroute ms (set_field r ''referencePoints'' (referencePoints m) s)),
     snd (forEach_multiroute ms (set_field r ''referencePoints'' (referencePoints m) s)))"
  using assms by (simp add: case_prod_beta)

declare forEach_multiroute.simps(2) [simp del]

lemma forEach_changes:
  "\<exists>h n. snd (forEach_multiroute ms s) = s\<lparr>heap := h, next_obj := n\<rparr>"
proof (induction ms arbitrary: s)
  case Nil
  have "s = s\<lparr>heap := heap s, next_obj := next_obj s\<rparr>" by simp
  then show ?case by (metis forEach_multiroute.simps(1) snd_conv)
next
  case (Cons m ms)
  show ?case
  proof (cases "multirouteModel m")
    case None
    let ?t = "set_field (next_obj s) ''referencePoints'' (referencePoints m)
               (s\<lparr>heap := (heap s)(next_obj s := Map.empty), next_obj := Suc (next_obj s)\<rparr>)"
    obtain h n where "snd (forEach_multiroute ms ?t) = ?t\<lparr>heap := h, next_obj := n\<rparr>"
      using Cons.IH by blast
    then have "snd (forEach_multiroute (m # ms) s) = s\<lparr>heap := h, next_obj := n\<rparr>"
      by (simp add: forEach_None [OF None] set_field_def)
    then show ?thesis by blast
  next
    case (Some r)
    let ?t = "set_field r ''referencePoints'' (referencePoints m) s"
    obtain h n where "snd (forEach_multiroute ms ?t) = ?t\<lparr>heap := h, next_obj := n\<rparr>"
      using Cons.IH by blast
    then have "snd (forEach_multiroute (m # ms) s) = s\<lparr>heap := h, next_obj := n\<rparr>"
      by (simp add: forEach_Some [OF Some] set_field_def)
    then show ?thesis by blast
  qed
qed

lemma forEach_frame:
  "center (snd (forEach_multiroute ms s)) = center s \<and>
   zoom (snd (forEach_multiroute ms s)) = zoom s \<and>
   mapState (snd (forEach_multiroute ms s)) = mapState s \<and>
   mapOptions (snd (forEach_multiroute ms s)) = mapOptions s \<and>
   p_uniqueMapId (snd (forEach_multiroute ms s)) = p_uniqueMapId s \<and>
   mc_placemarks (snd (forEach_multiroute ms s)) = mc_placemarks s \<and>
   multiroutes (snd (forEach_multiroute ms s)) = multiroutes s \<and>
   mc_geoObjects (snd (forEach_multiroute ms s)) = mc_geoObjects s \<and>
   container_id (snd (forEach_multiroute ms s)) = container_id s \<and>
   service_calls (snd (forEach_multiroute ms s)) = service_calls s \<and>
   initMap_subs (snd (forEach_multiroute ms s)) = initMap_subs s"
proof -
  obtain h n where "snd (forEach_multiroute ms s) = s\<lparr>heap := h, next_obj := n\<rparr>"
    using forEach_changes by blast
  then show ?thesis by simp
qed

lemma forEach_next_obj:
  "next_obj s \<le> next_obj (snd (forEach_multiroute ms s))"
proof (induction ms arbitrary: s)
  case Nil
  show ?case by simp
next
  case (Cons m ms)
  show ?case
  proof (cases "multirouteModel m")
    case None
    let ?t = "set_field (next_obj s) ''referencePoints'' (referencePoints m)
               (s\<lparr>heap := (heap s)(next_obj s := Map.empty), next_obj := Suc (next_obj s)\<rparr>)"
    have "next_obj ?t \<le> next_obj (snd (forEach_multiroute ms ?t))" by (rule Cons.IH)
    then show ?thesis by (simp add: forEach_None [OF None] set_field_frame)
  next
    case (Some r)
    let ?t = "set_field r ''referencePoints'' (referencePoints m) s"
    have "next_obj ?t \<le> next_obj (snd (forEach_multiroute ms ?t))" by (rule Cons.IH)
    then show ?thesis by (simp add: forEach_Some [OF Some] set_field_frame)
  qed
qed

lemma forEach_heap_frame:
  assumes "r < next_obj s"
    and "\<not> (f = ''referencePoints'' \<and> Some r \<in> multirouteModel ` set ms)"
  shows "heap (snd (forEach_multiroute ms s)) r f = heap s r f"
  using assms
proof (induction ms arbitrary: s)
  case Nil
  show ?case by simp
next
  case (Cons m ms)
  have rest: "\<not> (f = ''referencePoints'' \<and> Some r \<in> multirouteModel ` set ms)"
    using Cons.prems(2) by auto
  show ?case
  proof (cases "multirouteModel m")
    case None
    let ?t = "set_field (next_obj s) ''referencePoints'' (referencePoints m)
               (s\<lparr>heap := (heap s)(next_obj s := Map.empty), next_obj := Suc (next_obj s)\<rparr>)"
    have "r < next_obj ?t" using Cons.prems(1) by (simp add: set_field_frame)
    from Cons.IH [OF this rest]
    have "heap (snd (forEach_multiroute ms ?t)) r f = heap s r f"
      using Cons.prems(1) by (simp add: heap_set_field)
    then show ?thesis by (simp add: forEach_None [OF None])
  next
    case (Some r')
    let ?t = "set_field r' ''referencePoints'' (referencePoints m) s"
    have "r < next_obj ?t" using Cons.prems(1) by (simp add: set_field_frame)
    from Cons.IH [OF this rest]
    have "heap (snd (forEach_multiroute ms ?t)) r f = heap s r f"
      using Cons.prems(2) Some by (auto simp: heap_set_field)
    then show ?thesis by (simp add: forEach_Some [OF Some])
  qed
qed

lemma forEach_list:
  "list_all2 given_model ms (fst (forEach_multiroute ms s))"
proof (induction ms arbitrary: s)
  case Nil
  show ?case by simp
next
  case (Cons m ms)
  show ?case
  proof (cases "multirouteModel m")
    case None
    then show ?thesis using Cons.IH by (simp add: forEach_None [OF None] given_model_def)
  next
    case (Some r)
    then show ?thesis using Cons.IH by (simp add: forEach_Some [OF Some] given_model_def)
  qed
qed


lemma forEach_fresh:
  assumes "next_obj s \<le> r" and "r < next_obj (snd (forEach_multiroute ms s))"
    and "f \<noteq> ''referencePoints''"
  shows "heap (snd (forEach_multiroute ms s)) r f = None"
  using assms(1,2)
proof (induction ms arbitrary: s)
  case Nil
  then show ?case by simp
next
  case (Cons m ms)
  show ?case
  proof (cases "multirouteModel m")
    case None
    let ?t = "set_field (next_obj s) ''referencePoints'' (referencePoints m)
               (s\<lparr>heap := (heap s)(next_obj s := Map.empty), next_obj := Suc (next_obj s)\<rparr>)"
    have lt: "r < next_obj (snd (forEach_multiroute ms ?t))"
      using Cons.prems(2) by (simp add: forEach_None [OF None])
    have "heap (snd (forEach_multiroute ms ?t)) r f = None"
    proof (cases "r = next_obj s")
      case True
      then have "r < next_obj ?t" by (simp add: set_field_frame)
      then have "heap (snd (forEach_multiroute ms ?t)) r f = heap ?t r f"
        using assms(3) by (intro forEach_heap_frame) auto
      then show ?thesis using True assms(3) by (simp add: heap_set_field)
    next
      case False
      then have "next_obj ?t \<le> r" using Cons.prems(1) by (simp add: set_field_frame)
      then show ?thesis using lt by (rule Cons.IH)
    qed
    then show ?thesis by (simp add: forEach_None [OF None])
  next
    case (Some r')
    let ?t = "set_field r' ''referencePoints'' (referencePoints m) s"
    have "next_obj ?t \<le> r" using Cons.prems(1) by (simp add: set_field_frame)
    moreover have "r < next_obj (snd (forEach_multiroute ms ?t))"
      using Cons.prems(2) by (simp add: forEach_Some [OF Some])
    ultimately have "heap (snd (forEach_multiroute ms ?t)) r f = None" by (rule Cons.IH)
    then show ?thesis by (simp add: forEach_Some [OF Some])
  qed
qed

lemma combineInputs_unfold:
  "combineInputs s =
     (snd (forEach_multiroute (multiroutes s)
            (set_field (mapState s) ''center'' (center s)
              (set_field (mapState s) ''zoom'' (zoom s) s))))
     \<lparr>multiroutes :=
        fst (forEach_multiroute (multiroutes s)
              (set_field (mapState s) ''center'' (center s)
                (set_field (mapState s) ''zoom'' (zoom s) s)))\<rparr>"
  by (simp add: combineInputs_def Let_def set_field_frame case_prod_beta)

lemma combineInputs_fields:
  "center (combineInputs s) = center s \<and> zoom (combineInputs s) = zoom s \<and>
   mapState (combineInputs s) = mapState s \<and> mapOptions (combineInputs s) = mapOptions s \<and>
   p_uniqueMapId (combineInputs s) = p_uniqueMapId s \<and>
   mc_placemarks (combineInputs s) = mc_placemarks s \<and>
   mc_geoObjects (combineInputs s) = mc_geoObjects s \<and>
   container_id (combineInputs s) = container_id s \<and>
   service_calls (combineInputs s) = service_calls s \<and>
   initMap_subs (combineInputs s) = initMap_subs s"
  by (simp add: combineInputs_unfold forEach_frame set_field_frame)

lemma combineInputs_multiroutes:
  "list_all2 given_model (multiroutes s) (multiroutes (combineInputs s))"
  by (simp add: combineInputs_unfold forEach_list)

lemma combineInputs_heap:
  assumes "r < next_obj s"
    and "\<not> (f = ''referencePoints'' \<and> Some r \<in> multirouteModel ` set (multiroutes s))"
  shows "heap (combineInputs s) r f =
           (if r = mapState s \<and> f = ''center'' then Some (center s)
            else if r = mapState s \<and> f = ''zoom'' then Some (zoom s)
            else heap s r f)"
proof -
  let ?t = "set_field (mapState s) ''center'' (center s)
              (set_field (mapState s) ''zoom'' (zoom s) s)"
  have "r < next_obj ?t" using assms(1) by (simp add: set_field_frame)
  then have "heap (snd (forEach_multiroute (multiroutes s) ?t)) r f = heap ?t r f"
    using assms(2) by (rule forEach_heap_frame)
  then show ?thesis by (simp add: combineInputs_unfold heap_set_field)
qed

lemma combineInputs_fresh:
  assumes "next_obj s \<le> r" and "r < next_obj (combineInputs s)"
    and "f \<noteq> ''referencePoints''"
  shows "heap (combineInputs s) r f = None"
proof -
  let ?t = "set_field (mapState s) ''center'' (center s)
              (set_field (mapState s) ''zoom'' (zoom s) s)"
  have "next_obj ?t \<le> r" using assms(1) by (simp add: set_field_frame)
  moreover have "r < next_obj (snd (forEach_multiroute (multiroutes s) ?t))"
    using assms(2) by (simp add: combineInputs_unfold)
  ultimately have "heap (snd (forEach_multiroute (multiroutes s) ?t)) r f = None"
    using assms(3) by (rule forEach_fresh)
  then show ?thesis by (simp add: combineInputs_unfold)
qed


lemma foldl_call:
  "foldl (\<lambda>t x. call (g x) t) s xs = s\<lparr>service_calls := service_calls s @ map g xs\<rparr>"
  by (induction xs arbitrary: s) (simp_all add: call_def)

lemma on_initMap_unfold:
  "on_initMap s =
     (combineInputs s)\<lparr>service_calls :=
        service_calls s @
        [CreateMap (p_uniqueMapId s) (mapState s) (heap (combineInputs s) (mapState s))
           (mapOptions s)] @
        map (\<lambda>p. CreatePlacemark (geometry p) (placemarkProperties p) (placemarkOptions p))
          (mc_placemarks s) @
        map (\<lambda>m. CreateMultiroute (multirouteModel m) (multirouteOptions m))
          (multiroutes (combineInputs s)) @
        map (\<lambda>g. CreateGeoObject (geoObjectFeature g) (geoObjectOptions g))
          (mc_geoObjects s)\<rparr>"
  unfolding on_initMap_def Let_def setPlacemarks_def createMultiroute_def createGeoObject'_def
    foldl_call
  by (simp add: call_def combineInputs_fields)

lemma ngOnInit_unfold:
  "ngOnInit n s =
     s\<lparr>p_uniqueMapId := Some (''f'' @ toString16 n),
       container_id := Some (''f'' @ toString16 n),
       service_calls := service_calls s @ [InitMap],
       initMap_subs := Suc (initMap_subs s)\<rparr>"
  by (simp add: ngOnInit_def createMapWithObjects_def setUniqueMapIdOfMap_def call_def)

lemma initMap_emit_idle:
  assumes "initMap_subs s = 0"
  shows "initMap_emit s = s"
proof -
  have "s\<lparr>initMap_subs := initMap_subs s\<rparr> = s" by simp
  then show ?thesis using assms by (simp add: initMap_emit_def)
qed

lemma initMap_emit_one:
  assumes "initMap_subs s = Suc 0"
  shows "initMap_emit s = (on_initMap s)\<lparr>initMap_subs := 0\<rparr>"
  using assms by (simp add: initMap_emit_def)

lemma emit_again:
  assumes "initMap_subs s = 0"
  shows "(initMap_emit ^^ k) s = s"
  by (induction k) (simp_all add: initMap_emit_idle assms)

lemma first_emit:
  assumes "initMap_subs s = Suc 0"
  shows "(initMap_emit ^^ Suc k) s = (on_initMap s)\<lparr>initMap_subs := 0\<rparr>"
proof -
  have "(initMap_emit ^^ Suc k) s = (initMap_emit ^^ k) (initMap_emit s)"
    by (simp add: funpow_swap1)
  also have "\<dots> = (initMap_emit ^^ k) ((on_initMap s)\<lparr>initMap_subs := 0\<rparr>)"
    by (simp add: initMap_emit_one [OF assms])
  also have "\<dots> = (on_initMap s)\<lparr>initMap_subs := 0\<rparr>"
    by (rule emit_again) simp
  finally show ?thesis .
qed


lemma first_emit_after_init:
  assumes "initMap_subs s = 0"
  shows "(initMap_emit ^^ Suc k) (ngOnInit n s) = (on_initMap (ngOnInit n s))\<lparr>initMap_subs := 0\<rparr>"
  by (rule first_emit) (simp add: ngOnInit_unfold assms)

lemma calls_after_first_emit:
  assumes "initMap_subs s = 0"
  shows "service_calls ((initMap_emit ^^ Suc k) (ngOnInit n s)) =
      service_calls s @
      [InitMap,
       CreateMap (Some (''f'' @ toString16 n)) (mapState s)
         (heap (combineInputs (ngOnInit n s)) (mapState s)) (mapOptions s)] @
      map (\<lambda>p. CreatePlacemark (geometry p) (placemarkProperties p) (placemarkOptions p))
        (mc_placemarks s) @
      map (\<lambda>m. CreateMultiroute (multirouteModel m) (multirouteOptions m))
        (multiroutes (combineInputs (ngOnInit n s))) @
      map (\<lambda>g. CreateGeoObject (geoObjectFeature g) (geoObjectOptions g))
        (mc_geoObjects s)"
proof -
  have "service_calls ((on_initMap (ngOnInit n s))\<lparr>initMap_subs := 0\<rparr>) =
      service_calls (ngOnInit n s) @
      [CreateMap (p_uniqueMapId (ngOnInit n s)) (mapState (ngOnInit n s))
         (heap (combineInputs (ngOnInit n s)) (mapState (ngOnInit n s)))
         (mapOptions (ngOnInit n s))] @
      map (\<lambda>p. CreatePlacemark (geometry p) (placemarkProperties p) (placemarkOptions p))
        (mc_placemarks (ngOnInit n s)) @
      map (\<lambda>m. CreateMultiroute (multirouteModel m) (multirouteOptions m))
        (multiroutes (combineInputs (ngOnInit n s))) @
      map (\<lambda>g. CreateGeoObject (geoObjectFeature g) (geoObjectOptions g))
        (mc_geoObjects (ngOnInit n s))"
    by (simp add: on_initMap_unfold)
  moreover have "service_calls (ngOnInit n s) = service_calls s @ [InitMap]"
    and "p_uniqueMapId (ngOnInit n s) = Some (''f'' @ toString16 n)"
    and "mapState (ngOnInit n s) = mapState s"
    and "mapOptions (ngOnInit n s) = mapOptions s"
    and "mc_placemarks (ngOnInit n s) = mc_placemarks s"
    and "mc_geoObjects (ngOnInit n s) = mc_geoObjects s"
    by (simp_all add: ngOnInit_unfold)
  ultimately show ?thesis
    unfolding first_emit_after_init [OF assms] by simp
qed

lemma createMap_calls_after_first_emit:
  assumes "initMap_subs s = 0"
  shows "createMap_calls ((initMap_emit ^^ Suc k) (ngOnInit n s)) =
           createMap_calls s @
           [CreateMap (Some (''f'' @ toString16 n)) (mapState s)
              (heap (combineInputs (ngOnInit n s)) (mapState s)) (mapOptions s)]"
  unfolding createMap_calls_def calls_after_first_emit [OF assms]
  by (simp add: filter_empty_conv del: funpow.simps)

lemma combined_state:
  assumes "mapState s < next_obj s"
    and "Some (mapState s) \<notin> multirouteModel ` set (multiroutes s)"
  shows "heap (combineInputs (ngOnInit n s)) (mapState s) =
           (heap s (mapState s))(''zoom'' \<mapsto> zoom s, ''center'' \<mapsto> center s)"
proof
  fix f
  let ?t = "ngOnInit n s"
  have "mapState s < next_obj ?t" using assms(1) by (simp add: ngOnInit_unfold)
  moreover have "\<not> (f = ''referencePoints'' \<and>
                     Some (mapState s) \<in> multirouteModel ` set (multiroutes ?t))"
    using assms(2) by (simp add: ngOnInit_unfold)
  ultimately have "heap (combineInputs ?t) (mapState s) f =
      (if mapState s = mapState ?t \<and> f = ''center'' then Some (center ?t)
       else if mapState s = mapState ?t \<and> f = ''zoom'' then Some (zoom ?t)
       else heap ?t (mapState s) f)"
    by (rule combineInputs_heap)
  then show "heap (combineInputs ?t) (mapState s) f =
      ((heap s (mapState s))(''zoom'' \<mapsto> zoom s, ''center'' \<mapsto> center s)) f"
    by (simp add: ngOnInit_unfold)
qed

lemma passed_state:
  assumes "initMap_subs s = 0" and "mapState s < next_obj s"
    and "Some (mapState s) \<notin> multirouteModel ` set (multiroutes s)"
  shows "createMap_calls ((initMap_emit ^^ Suc k) (ngOnInit n s)) =
           createMap_calls s @
           [CreateMap (Some (''f'' @ toString16 n)) (mapState s)
              ((heap s (mapState s))(''zoom'' \<mapsto> zoom s, ''center'' \<mapsto> center s))
              (mapOptions s)]"
  unfolding createMap_calls_after_first_emit [OF assms(1)] combined_state [OF assms(2,3)]
  by (rule refl)

subsection \<open>What combining the inputs writes\<close>

text \<open>
  C10. \<open>_combineInputs\<close> sets the \<open>zoom\<close> and \<open>center\<close> fields of the map state to
  the inputs \<open>zoom\<close> and \<open>center\<close>, whatever these are, undefined included. It leaves
  every multiroute its reference points and options, with the model it had or with a new
  one. In an object that existed before, a field that differs afterwards is \<open>zoom\<close> or
  \<open>center\<close> of the map state, or \<open>referencePoints\<close> of the model of a multiroute.
  An object created by the call has no field but \<open>referencePoints\<close>.
\<close>

theorem combineInputs_frame:
  assumes "mapState s < next_obj s"
  shows "heap (combineInputs s) (mapState s) ''zoom'' = Some (zoom s) \<and>
         heap (combineInputs s) (mapState s) ''center'' = Some (center s) \<and>
         list_all2 given_model (multiroutes s) (multiroutes (combineInputs s)) \<and>
         (r < next_obj s \<and> heap (combineInputs s) r f \<noteq> heap s r f \<longrightarrow>
            r = mapState s \<and> (f = ''zoom'' \<or> f = ''center'') \<or>
            f = ''referencePoints'' \<and> Some r \<in> multirouteModel ` set (multiroutes s)) \<and>
         (next_obj s \<le> r \<and> r < next_obj (combineInputs s) \<and> f \<noteq> ''referencePoints'' \<longrightarrow>
            heap (combineInputs s) r f = None)"
proof -
  have z: "heap (combineInputs s) (mapState s) ''zoom'' = Some (zoom s)"
    using combineInputs_heap [OF assms, of "''zoom''"] by simp
  have c: "heap (combineInputs s) (mapState s) ''center'' = Some (center s)"
    using combineInputs_heap [OF assms, of "''center''"] by simp
  have m: "list_all2 given_model (multiroutes s) (multiroutes (combineInputs s))"
    by (rule combineInputs_multiroutes)
  have old: "r < next_obj s \<and> heap (combineInputs s) r f \<noteq> heap s r f \<longrightarrow>
        r = mapState s \<and> (f = ''zoom'' \<or> f = ''center'') \<or>
        f = ''referencePoints'' \<and> Some r \<in> multirouteModel ` set (multiroutes s)"
    using combineInputs_heap [of r s f] by (auto split: if_splits)
  have new: "next_obj s \<le> r \<and> r < next_obj (combineInputs s) \<and> f \<noteq> ''referencePoints'' \<longrightarrow>
        heap (combineInputs s) r f = None"
    using combineInputs_fresh [of s r f] by simp
  from z c m old new show ?thesis by (intro conjI)
qed

subsection \<open>The map is created once\<close>

text \<open>
  C2. \<open>ngOnInit\<close> sets the unique map id, calls \<open>initMap()\<close> and subscribes to what it
  returns; it does not call \<open>createMap\<close>. After the first emission, and after any number
  of further emissions, \<open>createMap\<close> has been called exactly once more than before
  \<open>ngOnInit\<close>: with the generated id, the map state as \<open>_combineInputs\<close> left it, and
  the \<open>mapOptions\<close> input.
\<close>

theorem createMap_once:
  assumes "initMap_subs s = 0"
  shows "p_uniqueMapId (ngOnInit n s) = Some (''f'' @ toString16 n) \<and>
         service_calls (ngOnInit n s) = service_calls s @ [InitMap] \<and>
         initMap_subs (ngOnInit n s) = 1 \<and>
         createMap_calls (ngOnInit n s) = createMap_calls s \<and>
         createMap_calls ((initMap_emit ^^ Suc k) (ngOnInit n s)) =
           createMap_calls s @
           [CreateMap (Some (''f'' @ toString16 n)) (mapState s)
              (heap (combineInputs (ngOnInit n s)) (mapState s)) (mapOptions s)]"
proof -
  have "p_uniqueMapId (ngOnInit n s) = Some (''f'' @ toString16 n)"
    by (simp add: ngOnInit_unfold)
  moreover have "service_calls (ngOnInit n s) = service_calls s @ [InitMap]"
    by (simp add: ngOnInit_unfold)
  moreover have "initMap_subs (ngOnInit n s) = 1"
    using assms by (simp add: ngOnInit_unfold)
  moreover have "createMap_calls (ngOnInit n s) = createMap_calls s"
    by (simp add: ngOnInit_unfold createMap_calls_def)
  ultimately show ?thesis
    using createMap_calls_after_first_emit [OF assms, of k n] by (intro conjI)
qed

subsection \<open>The children are registered in order\<close>

text \<open>
  C3. When the map is created, the calls made on the service after \<open>initMap\<close> and
  \<open>createMap\<close> are one \<open>createPlacemark\<close> for each placemark, then one
  \<open>createMultiroute\<close> for each multiroute, then one \<open>createGeoObject\<close> for each
  geo-object, each list in its order; further emissions add no call.
\<close>

theorem children_registered_in_order:
  assumes "initMap_subs s = 0"
  shows "list_all2 given_model (multiroutes s) (multiroutes (combineInputs (ngOnInit n s))) \<and>
    service_calls ((initMap_emit ^^ Suc k) (ngOnInit n s)) =
      service_calls s @
      [InitMap,
       CreateMap (Some (''f'' @ toString16 n)) (mapState s)
         (heap (combineInputs (ngOnInit n s)) (mapState s)) (mapOptions s)] @
      map (\<lambda>p. CreatePlacemark (geometry p) (placemarkProperties p) (placemarkOptions p))
        (mc_placemarks s) @
      map (\<lambda>m. CreateMultiroute (multirouteModel m) (multirouteOptions m))
        (multiroutes (combineInputs (ngOnInit n s))) @
      map (\<lambda>g. CreateGeoObject (geoObjectFeature g) (geoObjectOptions g))
        (mc_geoObjects s)"
proof -
  have "list_all2 given_model (multiroutes (ngOnInit n s))
          (multiroutes (combineInputs (ngOnInit n s)))"
    by (rule combineInputs_multiroutes)
  then have "list_all2 given_model (multiroutes s) (multiroutes (combineInputs (ngOnInit n s)))"
    by (simp add: ngOnInit_unfold)
  then show ?thesis
    using calls_after_first_emit [OF assms, of k n] by (intro conjI)
qed

subsection \<open>The map state that is passed on\<close>

text \<open>
  C5, as the code has it. The object passed to \<open>createMap\<close> is the map state the host
  supplied, in which the component has set \<open>zoom\<close> and \<open>center\<close> to the inputs of
  these names; every other field is as the host supplied it. (The object is taken to
  exist and not to be the model of a multiroute as well.)
\<close>

theorem mapState_passed_with_zoom_and_center:
  assumes "initMap_subs s = 0" and "mapState s < next_obj s"
    and "Some (mapState s) \<notin> multirouteModel ` set (multiroutes s)"
  shows "createMap_calls ((initMap_emit ^^ Suc k) (ngOnInit n s)) =
           createMap_calls s @
           [CreateMap (Some (''f'' @ toString16 n)) (mapState s)
              ((heap s (mapState s))(''zoom'' \<mapsto> zoom s, ''center'' \<mapsto> center s))
              (mapOptions s)]"
  using assms by (rule passed_state)

section \<open>Properties of AngularYandexMapsModule\<close>

text \<open>
  C7. For every configuration, \<open>forRoot\<close> returns the module
  \<open>AngularYandexMapsModule\<close> with exactly one provider, which binds the token
  \<open>YA_MAP_CONFIG\<close> to the configuration it was given.
\<close>

theorem forRoot_provides_config:
  "ngModule (forRoot YA_MAP_CONFIG config) = AngularYandexMapsModule \<and>
   length (providers (forRoot YA_MAP_CONFIG config)) = 1 \<and>
   providers (forRoot YA_MAP_CONFIG config) = [\<lparr>provide = YA_MAP_CONFIG, useValue = config\<rparr>]"
  by (simp add: forRoot_def)

section \<open>Properties of YaControlDirective\<close>

text \<open>
  C6. When the \<open>parameters\<close> input changes after the control has been initialised,
  \<open>ngOnChanges\<close> returns without an error, having called \<open>console.warn\<close> once; the
  control and the calls made on the SDK are what they were.
\<close>

theorem control_warns_after_init:
  assumes "ctl_control s = Some c" and "changes ''parameters'' = Some ch"
  shows "control_ngOnChanges msg changes s = Inr (s\<lparr>console_warn := console_warn s @ [msg]\<rparr>)"
  using assms by (simp add: control_ngOnChanges_def)

end
